theory Spec2Isabelle
  imports Main "HOL-Library.Stream" "HOL-Library.AList"
begin

section \<open>Python values, pandas frames and the errors the code can raise\<close>

text \<open>
  The account store of \<^verbatim>\<open>account_manager.py\<close> keeps its records in one pandas
  DataFrame, \<^verbatim>\<open>self._df\<close>. A cell holds a Python value; the values the manager
  writes are strings and booleans, and a cell that a row never received reads as NaN.
\<close>

datatype pyval = Str string | Bool bool | NaN

text \<open>Python truthiness, as the \<^verbatim>\<open>while current_key and ...\<close> test reads a value.\<close>

fun truthy :: "pyval \<Rightarrow> bool" where
  "truthy (Str s) = (s \<noteq> [])"
| "truthy (Bool b) = b"
| "truthy NaN = True"

text \<open>Elementwise \<^verbatim>\<open>==\<close> of a column against a scalar: NaN equals nothing.\<close>

fun py_eq :: "pyval \<Rightarrow> pyval \<Rightarrow> bool" where
  "py_eq NaN _ = False"
| "py_eq _ NaN = False"
| "py_eq a b = (a = b)"

datatype error = ValueError string | KeyError string | IndexError

text \<open>A row (and a Series) maps column names to values; a frame is its column index
  and its rows, in order.\<close>

type_synonym series = "string \<rightharpoonup> pyval"

record dataframe =
  columns :: "string list"
  rows :: "series list"

definition cell :: "series \<Rightarrow> string \<Rightarrow> pyval" where
  "cell r c = (case r c of None \<Rightarrow> NaN | Some v \<Rightarrow> v)"

text \<open>\<^verbatim>\<open>pd.DataFrame()\<close> and \<^verbatim>\<open>pd.DataFrame(columns=cs)\<close>.\<close>

definition DataFrame_empty :: "string list \<Rightarrow> dataframe" where
  "DataFrame_empty cs = \<lparr>columns = cs, rows = []\<rparr>"

text \<open>\<^verbatim>\<open>pd.DataFrame([d])\<close> for one dict \<open>d\<close>, kept as an association list
  in insertion order: the keys become the columns.\<close>

definition DataFrame_of_dict :: "(string \<times> pyval) list \<Rightarrow> dataframe" where
  "DataFrame_of_dict d = \<lparr>columns = map fst d, rows = [map_of d]\<rparr>"

text \<open>\<^verbatim>\<open>df[c].values\<close>: the cells of one column; KeyError when the frame has no
  such column.\<close>

definition getitem :: "dataframe \<Rightarrow> string \<Rightarrow> error + pyval list" where
  "getitem d c =
     (if c \<in> set (columns d) then Inr (map (\<lambda>r. cell r c) (rows d))
      else Inl (KeyError c))"

text \<open>\<^verbatim>\<open>df[mask]\<close>: the rows whose mask entry is true, same columns.\<close>

definition select_rows :: "dataframe \<Rightarrow> bool list \<Rightarrow> dataframe" where
  "select_rows d msk = d\<lparr>rows := map fst (filter snd (zip (rows d) msk))\<rparr>"

text \<open>A row read as a Series over the columns \<open>cs\<close>: a value for each of them, NaN
  where the row has none.\<close>

definition row_series :: "string list \<Rightarrow> series \<Rightarrow> series" where
  "row_series cs r = (\<lambda>c. if c \<in> set cs then Some (cell r c) else None)"

text \<open>\<^verbatim>\<open>df.iloc[i]\<close>: row \<open>i\<close> as a Series indexed by the frame's columns;
  IndexError out of range.\<close>

definition iloc :: "dataframe \<Rightarrow> nat \<Rightarrow> error + series" where
  "iloc d i =
     (if i < length (rows d) then Inr (row_series (columns d) (rows d ! i))
      else Inl IndexError)"

text \<open>\<^verbatim>\<open>series.get(c, default)\<close>.\<close>

definition series_get :: "series \<Rightarrow> string \<Rightarrow> pyval \<Rightarrow> pyval" where
  "series_get a c dflt = (case a c of None \<Rightarrow> dflt | Some v \<Rightarrow> v)"

text \<open>\<^verbatim>\<open>pd.concat([a, b], ignore_index=True)\<close>: the rows of \<open>a\<close> then those of
  \<open>b\<close>, over the union of the columns in order of first appearance.\<close>

definition concat_frames :: "dataframe \<Rightarrow> dataframe \<Rightarrow> dataframe" where
  "concat_frames a b =
     \<lparr>columns = columns a @ filter (\<lambda>c. c \<notin> set (columns a)) (columns b),
      rows = rows a @ rows b\<rparr>"

text \<open>\<^verbatim>\<open>x in values\<close> on a numpy array: some element compares equal.\<close>

definition contains :: "pyval list \<Rightarrow> pyval \<Rightarrow> bool" where
  "contains vals x = list_ex (\<lambda>v. py_eq v x) vals"

section \<open>AccountType\<close>

datatype AccountType = ASSET | LIABILITY | EQUITY | INCOME | EXPENSE | CASH | BANK | CREDIT

fun type_value :: "AccountType \<Rightarrow> string" where
  "type_value ASSET = ''ASSET''"
| "type_value LIABILITY = ''LIABILITY''"
| "type_value EQUITY = ''EQUITY''"
| "type_value INCOME = ''INCOME''"
| "type_value EXPENSE = ''EXPENSE''"
| "type_value CASH = ''CASH''"
| "type_value BANK = ''BANK''"
| "type_value CREDIT = ''CREDIT''"

text \<open>The members in definition order, as iterating the Enum class yields them.\<close>

definition members :: "AccountType list" where
  "members = [ASSET, LIABILITY, EQUITY, INCOME, EXPENSE, CASH, BANK, CREDIT]"

definition value2member_map :: "string \<rightharpoonup> AccountType" where
  "value2member_map = map_of (map (\<lambda>m. (type_value m, m)) members)"

definition is_valid :: "string \<Rightarrow> bool" where
  "is_valid v = (value2member_map v \<noteq> None)"

definition get_all_values :: "string list" where
  "get_all_values = map type_value members"

section \<open>AccountManager\<close>

definition REQUIRED_COLUMNS :: "string list" where
  "REQUIRED_COLUMNS = [''account_key'', ''parent_key'', ''type'', ''name'', ''full_name'',
     ''account_number'', ''currency'', ''hidden'']"

definition OPTIONAL_COLUMNS :: "string list" where
  "OPTIONAL_COLUMNS = [''description'', ''color'', ''notes'', ''namespace'',
     ''tax_relevant'', ''placeholder'']"

text \<open>\<^verbatim>\<open>__init__\<close>: an empty frame over the required and optional columns.\<close>

definition init :: dataframe where
  "init = DataFrame_empty (REQUIRED_COLUMNS @ OPTIONAL_COLUMNS)"

subsection \<open>Key generation\<close>

definition ascii_uppercase :: string where
  "ascii_uppercase = ''ABCDEFGHIJKLMNOPQRSTUVWXYZ''"

text \<open>
  \<^verbatim>\<open>random.choices(population, k=k)\<close> picks \<open>k\<close> elements with replacement. The
  generator is the stream of its future draws; a draw \<open>d\<close> selects element
  \<open>d mod n\<close> of the \<open>n\<close> in the population, so every outcome of the call, and no
  other, is the image of some stream. The call returns the picks and the generator
  advanced by \<open>k\<close> draws.
\<close>

definition choices :: "nat stream \<Rightarrow> 'a list \<Rightarrow> nat \<Rightarrow> 'a list \<times> nat stream" where
  "choices g population k =
     (map (\<lambda>d. population ! (d mod length population)) (stake k g), sdrop k g)"

text \<open>
  \<^verbatim>\<open>_generate_account_key\<close>: the \<^verbatim>\<open>while True\<close> loop draws keys until one is
  not in the \<^verbatim>\<open>account_key\<close> column. It need not return: \<open>None\<close> is the loop that
  runs forever.
\<close>

partial_function (option) generate_account_key ::
  "dataframe \<Rightarrow> nat stream \<Rightarrow> ((error + string) \<times> nat stream) option" where
  "generate_account_key s g =
     (case choices g ascii_uppercase 5 of (key, g') \<Rightarrow>
        if ''account_key'' \<notin> set (columns s) then Some (Inr key, g')
        else (case getitem s ''account_key'' of
                Inl e \<Rightarrow> Some (Inl e, g')
              | Inr vals \<Rightarrow>
                  if \<not> contains vals (Str key) then Some (Inr key, g')
                  else generate_account_key s g'))"

subsection \<open>create_account\<close>

fun join :: "string \<Rightarrow> string list \<Rightarrow> string" where
  "join sep [] = []"
| "join sep [x] = x"
| "join sep (x # y # ys) = x @ sep @ join sep (y # ys)"

text \<open>The two \<^verbatim>\<open>ValueError\<close>s of \<^verbatim>\<open>create_account\<close>, with their messages. The
  spec calls the first InvalidType and the second UnknownParent.\<close>

definition invalid_type_error :: "string \<Rightarrow> error" where
  "invalid_type_error account_type =
     ValueError (''Invalid account type: '' @ account_type @ ''. Valid types: ''
                 @ join '', '' get_all_values)"

definition unknown_parent_error :: "string \<Rightarrow> error" where
  "unknown_parent_error parent_key =
     ValueError (''Parent account key '' @ [CHR 0x27] @ parent_key @ [CHR 0x27]
                 @ '' does not exist'')"

text \<open>The dict literal \<^verbatim>\<open>new_account\<close>, in insertion order.\<close>

definition new_account_required ::
  "string \<Rightarrow> string \<Rightarrow> string \<Rightarrow> string \<Rightarrow> string \<Rightarrow> string \<Rightarrow> string \<Rightarrow> bool
   \<Rightarrow> (string \<times> pyval) list" where
  "new_account_required account_key parent_key account_type name full_name account_number
       currency hidden =
     [(''account_key'', Str account_key),
      (''parent_key'', Str parent_key),
      (''type'', Str account_type),
      (''name'', Str name),
      (''full_name'', Str full_name),
      (''account_number'', Str account_number),
      (''currency'', Str currency),
      (''hidden'', Bool hidden)]"

text \<open>The loop over \<^verbatim>\<open>OPTIONAL_COLUMNS\<close>: a recognised optional field that was
  supplied is stored, every other keyword argument is dropped.\<close>

definition add_optional_fields ::
  "(string \<rightharpoonup> pyval) \<Rightarrow> (string \<times> pyval) list \<Rightarrow> (string \<times> pyval) list" where
  "add_optional_fields optional_fields new_account =
     fold (\<lambda>field d. case optional_fields field of
                         Some v \<Rightarrow> AList.update field v d
                       | None \<Rightarrow> d)
          OPTIONAL_COLUMNS new_account"

text \<open>
  \<^verbatim>\<open>create_account\<close> takes the frame and the generator and returns its outcome (the
  raised error or the new key) with the frame and the generator after the call;
  \<open>None\<close> when key generation never returns.
\<close>

definition create_account ::
  "dataframe \<Rightarrow> nat stream \<Rightarrow> string \<Rightarrow> string \<Rightarrow> string \<Rightarrow> string \<Rightarrow> string \<Rightarrow> string
   \<Rightarrow> bool \<Rightarrow> (string \<rightharpoonup> pyval)
   \<Rightarrow> ((error + string) \<times> dataframe \<times> nat stream) option" where
  "create_account s g account_type name full_name parent_key account_number currency hidden
       optional_fields =
     (if \<not> is_valid account_type then Some (Inl (invalid_type_error account_type), s, g)
      else
        (case (if parent_key \<noteq> [] \<and> ''account_key'' \<in> set (columns s) then
                 (case getitem s ''account_key'' of
                    Inl e \<Rightarrow> Some e
                  | Inr vals \<Rightarrow>
                      if \<not> contains vals (Str parent_key)
                      then Some (unknown_parent_error parent_key) else None)
               else None) of
           Some e \<Rightarrow> Some (Inl e, s, g)
         | None \<Rightarrow>
            (case generate_account_key s g of
               None \<Rightarrow> None
             | Some (Inl e, g') \<Rightarrow> Some (Inl e, s, g')
             | Some (Inr account_key, g') \<Rightarrow>
                 let new_account =
                       add_optional_fields optional_fields
                         (new_account_required account_key parent_key account_type name
                            full_name account_number currency hidden);
                     new_df = DataFrame_of_dict new_account
                 in Some (Inr account_key, concat_frames s new_df, g'))))"

subsection \<open>Queries\<close>

text \<open>Every query returns its outcome together with the frame the manager holds after
  the call.\<close>

definition get_account_by_key ::
  "dataframe \<Rightarrow> pyval \<Rightarrow> (error + series option) \<times> dataframe" where
  "get_account_by_key s account_key =
     (if ''account_key'' \<notin> set (columns s) then (Inr None, s)
      else
        (case getitem s ''account_key'' of
           Inl e \<Rightarrow> (Inl e, s)
         | Inr vals \<Rightarrow>
             let result = select_rows s (map (\<lambda>v. py_eq v account_key) vals)
             in if length (rows result) > 0
                then (case iloc result 0 of
                        Inl e \<Rightarrow> (Inl e, s)
                      | Inr account \<Rightarrow> (Inr (Some account), s))
                else (Inr None, s)))"

definition get_children :: "dataframe \<Rightarrow> pyval \<Rightarrow> (error + dataframe) \<times> dataframe" where
  "get_children s parent_key =
     (if ''parent_key'' \<notin> set (columns s) then (Inr (DataFrame_empty []), s)
      else
        (case getitem s ''parent_key'' of
           Inl e \<Rightarrow> (Inl e, s)
         | Inr vals \<Rightarrow> (Inr (select_rows s (map (\<lambda>v. py_eq v parent_key) vals)), s)))"

definition get_root_accounts :: "dataframe \<Rightarrow> (error + dataframe) \<times> dataframe" where
  "get_root_accounts s =
     (if ''parent_key'' \<notin> set (columns s) then (Inr (DataFrame_empty []), s)
      else
        (case getitem s ''parent_key'' of
           Inl e \<Rightarrow> (Inl e, s)
         | Inr vals \<Rightarrow> (Inr (select_rows s (map (\<lambda>v. py_eq v (Str [])) vals)), s)))"

definition max_depth :: nat where
  "max_depth = 100"

text \<open>The \<^verbatim>\<open>while\<close> loop of \<^verbatim>\<open>get_account_path\<close>, on its variables \<open>path\<close>,
  \<open>current_key\<close> and \<open>depth\<close>.\<close>

function path_loop ::
  "dataframe \<Rightarrow> pyval list \<Rightarrow> pyval \<Rightarrow> nat \<Rightarrow> (error + pyval list) \<times> dataframe" where
  "path_loop s path current_key depth =
     (if truthy current_key \<and> depth < max_depth then
        (case get_account_by_key s current_key of
           (Inl e, s') \<Rightarrow> (Inl e, s')
         | (Inr None, s') \<Rightarrow> (Inr path, s')
         | (Inr (Some account), s') \<Rightarrow>
             path_loop s' (current_key # path)
               (series_get account ''parent_key'' (Str [])) (depth + 1))
      else (Inr path, s))"
  by pat_completeness auto
termination
  by (relation "measure (\<lambda>(s, path, current_key, depth). max_depth - depth)") auto

declare path_loop.simps [simp del]

definition get_account_path :: "dataframe \<Rightarrow> pyval \<Rightarrow> (error + pyval list) \<times> dataframe" where
  "get_account_path s account_key = path_loop s [] account_key 0"

definition get_all_accounts :: "dataframe \<Rightarrow> (error + dataframe) \<times> dataframe" where
  "get_all_accounts s = (Inr s, s)"

subsection \<open>delete_account\<close>

text \<open>The list without the first element that satisfies \<open>P\<close>.\<close>

fun remove_first :: "('a \<Rightarrow> bool) \<Rightarrow> 'a list \<Rightarrow> 'a list" where
  "remove_first P [] = []"
| "remove_first P (x # xs) = (if P x then xs else x # remove_first P xs)"

text \<open>
  Modelled from the spec: \<^verbatim>\<open>delete_account\<close> and the lookup by name it resolves an
  identifier with are called by \<^verbatim>\<open>example_usage.py\<close> but their code is not in
  \<^verbatim>\<open>account_manager.py\<close> as given. The spec: the identifier may be an account key
  or a name, resolved by lookup (exact match, the first match if several); the
  matching record is removed and the call returns true; it returns false, with the
  store as it was, if nothing matches; children of the removed account are neither
  removed nor re-parented.
\<close>

definition delete_account :: "dataframe \<Rightarrow> string \<Rightarrow> bool \<times> dataframe" where
  "delete_account s identifier =
     (if list_ex (\<lambda>r. cell r ''account_key'' = Str identifier) (rows s)
      then (True, s\<lparr>rows := remove_first (\<lambda>r. cell r ''account_key'' = Str identifier) (rows s)\<rparr>)
      else if list_ex (\<lambda>r. cell r ''name'' = Str identifier) (rows s)
      then (True, s\<lparr>rows := remove_first (\<lambda>r. cell r ''name'' = Str identifier) (rows s)\<rparr>)
      else (False, s))"

section \<open>Notions the properties are stated with\<close>

text \<open>A well-formed key: five characters, each an upper-case ASCII letter.\<close>

definition valid_key :: "string \<Rightarrow> bool" where
  "valid_key k = (length k = 5 \<and> list_all (\<lambda>c. c \<in> set ascii_uppercase) k)"

text \<open>The account keys present in the store: the cells of its \<^verbatim>\<open>account_key\<close>
  column, in store order.\<close>

definition account_keys :: "dataframe \<Rightarrow> pyval list" where
  "account_keys s =
     (if ''account_key'' \<in> set (columns s) then map (\<lambda>r. cell r ''account_key'') (rows s)
      else [])"

text \<open>The \<open>n\<close>-th key the generator \<open>g\<close> draws (counting from 0).\<close>

definition candidate :: "nat stream \<Rightarrow> nat \<Rightarrow> string" where
  "candidate g n = fst (choices (sdrop (5 * n) g) ascii_uppercase 5)"

text \<open>The states the manager can be in: the one \<^verbatim>\<open>__init__\<close> builds, and every
  state a call of one of its methods leaves behind.\<close>

inductive reachable :: "dataframe \<Rightarrow> bool" where
  r_init: "reachable init"
| r_create: "reachable s \<Longrightarrow>
     create_account s g account_type name full_name parent_key account_number currency
       hidden optional_fields = Some (res, s', g') \<Longrightarrow> reachable s'"
| r_by_key: "reachable s \<Longrightarrow> reachable (snd (get_account_by_key s k))"
| r_children: "reachable s \<Longrightarrow> reachable (snd (get_children s k))"
| r_roots: "reachable s \<Longrightarrow> reachable (snd (get_root_accounts s))"
| r_path: "reachable s \<Longrightarrow> reachable (snd (get_account_path s k))"
| r_all: "reachable s \<Longrightarrow> reachable (snd (get_all_accounts s))"

text \<open>Following \<^verbatim>\<open>parent_key\<close> links from key \<open>k\<close> reaches, in at most \<open>n\<close> hops,
  an account whose \<^verbatim>\<open>parent_key\<close> is empty.\<close>

fun reaches_root :: "dataframe \<Rightarrow> nat \<Rightarrow> pyval \<Rightarrow> bool" where
  "reaches_root s 0 k =
     list_ex (\<lambda>r. cell r ''account_key'' = k \<and> cell r ''parent_key'' = Str []) (rows s)"
| "reaches_root s (Suc n) k =
     list_ex (\<lambda>r. cell r ''account_key'' = k \<and>
                  (cell r ''parent_key'' = Str [] \<or> reaches_root s n (cell r ''parent_key'')))
             (rows s)"

text \<open>The keys an upward walk from \<open>k\<close> visits in its first \<open>n\<close> hops: it moves to
  the parent of the account found, and stops at a falsy key or a key not found.\<close>

fun walk :: "dataframe \<Rightarrow> pyval \<Rightarrow> nat \<Rightarrow> pyval list" where
  "walk s k 0 = []"
| "walk s k (Suc n) =
     (if truthy k then
        (case fst (get_account_by_key s k) of
           Inr (Some account) \<Rightarrow> k # walk s (series_get account ''parent_key'' (Str [])) n
         | _ \<Rightarrow> [])
      else [])"

text \<open>The record \<^verbatim>\<open>create_account\<close> appends: the dict \<^verbatim>\<open>new_account\<close> after the
  loop over the optional columns, read as a row.\<close>

definition new_record ::
  "string \<Rightarrow> string \<Rightarrow> string \<Rightarrow> string \<Rightarrow> string \<Rightarrow> string \<Rightarrow> string \<Rightarrow> bool
   \<Rightarrow> (string \<rightharpoonup> pyval) \<Rightarrow> series" where
  "new_record account_key parent_key account_type name full_name account_number currency
       hidden optional_fields =
     map_of (add_optional_fields optional_fields
               (new_account_required account_key parent_key account_type name full_name
                  account_number currency hidden))"

text \<open>The two kinds of \<^verbatim>\<open>ValueError\<close> that \<^verbatim>\<open>create_account\<close> raises, told apart by
  how the message starts.\<close>

definition InvalidType :: "error \<Rightarrow> bool" where
  "InvalidType e =
     (case e of ValueError m \<Rightarrow> take 22 m = ''Invalid account type: '' | _ \<Rightarrow> False)"

definition UnknownParent :: "error \<Rightarrow> bool" where
  "UnknownParent e =
     (case e of ValueError m \<Rightarrow> take 20 m = ''Parent account key '' @ [CHR 0x27] | _ \<Rightarrow> False)"

text \<open>The invariant behind the acyclic parent graph: every row has a well-formed key,
  no two rows share a key, and a non-empty parent key is the key of an earlier row.\<close>

definition parents_first :: "series list \<Rightarrow> bool" where
  "parents_first rs =
     (\<forall>i<length rs.
        (\<exists>k. cell (rs ! i) ''account_key'' = Str k \<and> valid_key k) \<and>
        (\<forall>j<i. cell (rs ! j) ''account_key'' \<noteq> cell (rs ! i) ''account_key'') \<and>
        (cell (rs ! i) ''parent_key'' = Str [] \<or>
         (\<exists>j<i. cell (rs ! i) ''parent_key'' = cell (rs ! j) ''account_key'')))"

section \<open>Example stores\<close>

text \<open>A root account of type ASSET under key \<open>k\<close>, as \<^verbatim>\<open>create_account\<close> stores it
  when called with the key as name and the defaults for the rest.\<close>

definition root_record :: "string \<Rightarrow> series" where
  "root_record k = new_record k [] ''ASSET'' k k [] ''EUR'' False Map.empty"

text \<open>A child account of type BANK under key \<open>k\<close> with parent \<open>p\<close>.\<close>

definition child_record :: "string \<Rightarrow> string \<Rightarrow> series" where
  "child_record k p = new_record k p ''BANK'' k k [] ''EUR'' False Map.empty"

definition store_of :: "series list \<Rightarrow> dataframe" where
  "store_of rs = \<lparr>columns = REQUIRED_COLUMNS @ OPTIONAL_COLUMNS, rows = rs\<rparr>"

text \<open>One root; a root with a child; a chain of three.\<close>

definition store1 :: dataframe where
  "store1 = store_of [root_record ''ABCDE'']"

definition store2 :: dataframe where
  "store2 = store_of [root_record ''ABCDE'', child_record ''FGHIJ'' ''ABCDE'']"

definition store3 :: dataframe where
  "store3 = store_of [root_record ''ABCDE'', child_record ''FGHIJ'' ''ABCDE'',
                      child_record ''KLMNO'' ''FGHIJ'']"

text \<open>The child of \<open>store2\<close> alone, its parent gone.\<close>

definition orphan_store :: dataframe where
  "orphan_store = store_of [child_record ''FGHIJ'' ''ABCDE'']"

text \<open>An account that is its own parent: a cyclic parent graph.\<close>

definition cyclic_store :: dataframe where
  "cyclic_store = store_of [child_record ''ABCDE'' ''ABCDE'']"

text \<open>The store that holds a root account under every one of the \<open>26^5\<close> keys.\<close>

definition full_store :: dataframe where
  "full_store = store_of (map root_record (List.n_lists 5 ascii_uppercase))"

section \<open>Frames and key generation\<close>

lemma select_rows_map:
  "select_rows s (map P (rows s)) = s\<lparr>rows := filter P (rows s)\<rparr>"
proof -
  have "map fst (filter snd (zip xs (map P xs))) = filter P xs" for xs :: "series list"
    by (induction xs) auto
  then show ?thesis by (simp add: select_rows_def)
qed

lemma select_rows_cells:
  "select_rows s (map (P \<circ> (\<lambda>r. cell r c)) (rows s))
     = s\<lparr>rows := filter (\<lambda>r. P (cell r c)) (rows s)\<rparr>"
  using select_rows_map [of s "\<lambda>r. P (cell r c)"] by (simp add: comp_def)

lemma contains_iff: "contains vals x \<longleftrightarrow> (\<exists>v\<in>set vals. py_eq v x)"
  by (simp add: contains_def list_ex_iff)

lemma py_eq_Str: "py_eq v (Str k) \<longleftrightarrow> v = Str k"
  by (cases v) auto

lemma contains_Str: "contains vals (Str k) \<longleftrightarrow> Str k \<in> set vals"
  by (auto simp: contains_iff py_eq_Str)

lemma valid_key_choices: "valid_key (fst (choices g ascii_uppercase 5))"
proof -
  have "length ascii_uppercase = 26" by (simp add: ascii_uppercase_def)
  then have "ascii_uppercase ! (d mod length ascii_uppercase) \<in> set ascii_uppercase" for d
    by (intro nth_mem) simp
  then show ?thesis
    by (simp add: valid_key_def choices_def list_all_iff)
qed


lemma getitem_present:
  "c \<in> set (columns s) \<Longrightarrow> getitem s c = Inr (map (\<lambda>r. cell r c) (rows s))"
  by (simp add: getitem_def)

lemma getitem_account_key:
  "''account_key'' \<in> set (columns s) \<Longrightarrow> getitem s ''account_key'' = Inr (account_keys s)"
  by (simp add: getitem_def account_keys_def)

lemma account_keys_absent:
  "''account_key'' \<notin> set (columns s) \<Longrightarrow> account_keys s = []"
  by (simp add: account_keys_def)

lemma generate_account_key_unfold:
  "generate_account_key s g =
     (if Str (fst (choices g ascii_uppercase 5)) \<notin> set (account_keys s)
      then Some (Inr (fst (choices g ascii_uppercase 5)), snd (choices g ascii_uppercase 5))
      else generate_account_key s (snd (choices g ascii_uppercase 5)))"
proof (cases "''account_key'' \<in> set (columns s)")
  case True
  then show ?thesis
    by (subst generate_account_key.simps)
       (simp add: getitem_account_key contains_Str split: prod.split)
next
  case False
  then show ?thesis
    by (subst generate_account_key.simps)
       (simp add: account_keys_absent split: prod.split)
qed

lemma generate_account_key_sound_aux:
  assumes a: "generate_account_key s g = Some y"
  shows "\<exists>key. fst y = Inr key \<and> valid_key key \<and> Str key \<notin> set (account_keys s)"
proof (rule generate_account_key.raw_induct
    [where P = "\<lambda>s g y. \<exists>key. fst y = Inr key \<and> valid_key key \<and> Str key \<notin> set (account_keys s)",
     OF _ a])
  fix f :: "dataframe \<Rightarrow> nat stream \<Rightarrow> ((error + string) \<times> nat stream) option"
  fix s g y
  assume IH: "\<And>s g y. f s g = Some y \<Longrightarrow>
      \<exists>key. fst y = Inr key \<and> valid_key key \<and> Str key \<notin> set (account_keys s)"
  assume eq: "(case choices g ascii_uppercase 5 of
      (key, g') \<Rightarrow>
        if ''account_key'' \<notin> set (columns s) then Some (Inr key, g')
        else case getitem s ''account_key'' of Inl e \<Rightarrow> Some (Inl e, g')
             | Inr vals \<Rightarrow>
                 if \<not> contains vals (Str key) then Some (Inr key, g')
                 else f s g') = Some y"
  show "\<exists>key. fst y = Inr key \<and> valid_key key \<and> Str key \<notin> set (account_keys s)"
  proof (cases "''account_key'' \<in> set (columns s)")
    case True
    with eq IH show ?thesis
      using valid_key_choices [of g]
      by (auto simp: getitem_account_key contains_Str split: prod.splits if_splits)
  next
    case False
    with eq show ?thesis
      using valid_key_choices [of g]
      by (auto simp: account_keys_absent split: prod.splits)
  qed
qed

lemma generate_account_key_sound:
  "generate_account_key s g = Some (res, g') \<Longrightarrow>
     \<exists>key. res = Inr key \<and> valid_key key \<and> Str key \<notin> set (account_keys s)"
  using generate_account_key_sound_aux [of s g "(res, g')"] by simp

lemma candidate_0: "candidate g 0 = fst (choices g ascii_uppercase 5)"
  by (simp add: candidate_def)

lemma candidate_Suc: "candidate g (Suc n) = candidate (snd (choices g ascii_uppercase 5)) n"
  by (simp add: candidate_def choices_def sdrop_add add.commute)

lemma generate_account_key_returns:
  "Str (candidate g n) \<notin> set (account_keys s) \<Longrightarrow>
     \<exists>key g'. generate_account_key s g = Some (Inr key, g')"
proof (induction n arbitrary: g)
  case 0
  then show ?case
    by (subst generate_account_key_unfold) (simp add: candidate_0)
next
  case (Suc n)
  show ?case
  proof (cases "Str (fst (choices g ascii_uppercase 5)) \<in> set (account_keys s)")
    case True
    from Suc.prems have "Str (candidate (snd (choices g ascii_uppercase 5)) n) \<notin> set (account_keys s)"
      by (simp add: candidate_Suc)
    from Suc.IH [OF this] True show ?thesis
      by (subst generate_account_key_unfold) simp
  next
    case False
    then show ?thesis
      by (subst generate_account_key_unfold) simp
  qed
qed

section \<open>create_account\<close>

lemma create_account_invalid_type:
  "\<not> is_valid account_type \<Longrightarrow>
     create_account s g account_type name full_name parent_key account_number currency hidden
       optional_fields = Some (Inl (invalid_type_error account_type), s, g)"
  by (simp add: create_account_def)

lemma create_account_unknown_parent:
  "is_valid account_type \<Longrightarrow> parent_key \<noteq> [] \<Longrightarrow> ''account_key'' \<in> set (columns s) \<Longrightarrow>
   Str parent_key \<notin> set (account_keys s) \<Longrightarrow>
     create_account s g account_type name full_name parent_key account_number currency hidden
       optional_fields = Some (Inl (unknown_parent_error parent_key), s, g)"
  by (simp add: create_account_def getitem_account_key contains_Str)

lemma create_account_proceeds:
  "is_valid account_type \<Longrightarrow>
   parent_key = [] \<or> ''account_key'' \<notin> set (columns s) \<or> Str parent_key \<in> set (account_keys s) \<Longrightarrow>
     create_account s g account_type name full_name parent_key account_number currency hidden
       optional_fields =
     (case generate_account_key s g of
        None \<Rightarrow> None
      | Some (Inl e, g') \<Rightarrow> Some (Inl e, s, g')
      | Some (Inr account_key, g') \<Rightarrow>
          Some (Inr account_key,
                concat_frames s (DataFrame_of_dict
                  (add_optional_fields optional_fields
                     (new_account_required account_key parent_key account_type name full_name
                        account_number currency hidden))),
                g'))"
  by (auto simp add: create_account_def getitem_account_key contains_Str Let_def
      split: option.splits sum.splits prod.splits)

lemma map_of_fold_optional:
  "map_of (fold (\<lambda>field d. case opt field of Some v \<Rightarrow> AList.update field v d | None \<Rightarrow> d) fs d) k
     = (if k \<in> set fs then (case opt k of Some v \<Rightarrow> Some v | None \<Rightarrow> map_of d k)
        else map_of d k)"
  by (induction fs arbitrary: d) (auto simp: update_conv split: option.splits)

lemma map_of_add_optional_fields:
  "map_of (add_optional_fields opt d) k
     = (if k \<in> set OPTIONAL_COLUMNS then (case opt k of Some v \<Rightarrow> Some v | None \<Rightarrow> map_of d k)
        else map_of d k)"
  by (simp add: add_optional_fields_def map_of_fold_optional)

lemma rows_concat_dict:
  "rows (concat_frames s (DataFrame_of_dict d)) = rows s @ [map_of d]"
  by (simp add: concat_frames_def DataFrame_of_dict_def)

lemma columns_concat_dict:
  "columns (concat_frames s (DataFrame_of_dict d))
     = columns s @ filter (\<lambda>c. c \<notin> set (columns s)) (map fst d)"
  by (simp add: concat_frames_def DataFrame_of_dict_def)

lemma new_record_required:
  "new_record k p t n f a c h opt ''account_key'' = Some (Str k)"
  "new_record k p t n f a c h opt ''parent_key'' = Some (Str p)"
  "new_record k p t n f a c h opt ''type'' = Some (Str t)"
  "new_record k p t n f a c h opt ''name'' = Some (Str n)"
  "new_record k p t n f a c h opt ''full_name'' = Some (Str f)"
  "new_record k p t n f a c h opt ''account_number'' = Some (Str a)"
  "new_record k p t n f a c h opt ''currency'' = Some (Str c)"
  "new_record k p t n f a c h opt ''hidden'' = Some (Bool h)"
  by (simp_all add: new_record_def map_of_add_optional_fields OPTIONAL_COLUMNS_def
      new_account_required_def)

lemma new_record_optional:
  "fld \<in> set OPTIONAL_COLUMNS \<Longrightarrow> new_record k p t n f a c h opt fld = opt fld"
  by (auto simp add: new_record_def map_of_add_optional_fields OPTIONAL_COLUMNS_def
      new_account_required_def split: option.splits)

lemma new_record_other:
  "fld \<notin> set (REQUIRED_COLUMNS @ OPTIONAL_COLUMNS) \<Longrightarrow> new_record k p t n f a c h opt fld = None"
  by (simp add: new_record_def map_of_add_optional_fields OPTIONAL_COLUMNS_def
      REQUIRED_COLUMNS_def new_account_required_def)

lemma cell_new_record:
  "cell (new_record k p t n f a c h opt) ''account_key'' = Str k"
  "cell (new_record k p t n f a c h opt) ''parent_key'' = Str p"
  "cell (new_record k p t n f a c h opt) ''name'' = Str n"
  by (simp_all add: cell_def new_record_required)

lemma cell_root_record:
  "cell (root_record k) ''account_key'' = Str k"
  "cell (root_record k) ''parent_key'' = Str []"
  "cell (root_record k) ''name'' = Str k"
  by (simp_all add: root_record_def cell_new_record)

lemma cell_child_record:
  "cell (child_record k p) ''account_key'' = Str k"
  "cell (child_record k p) ''parent_key'' = Str p"
  "cell (child_record k p) ''name'' = Str k"
  by (simp_all add: child_record_def cell_new_record)

lemma columns_store_of:
  "''account_key'' \<in> set (columns (store_of rs))"
  "''parent_key'' \<in> set (columns (store_of rs))"
  by (simp_all add: store_of_def REQUIRED_COLUMNS_def)

lemma rows_store_of: "rows (store_of rs) = rs"
  by (simp add: store_of_def)

lemma account_keys_store_of:
  "account_keys (store_of rs) = map (\<lambda>r. cell r ''account_key'') rs"
  by (simp add: account_keys_def columns_store_of rows_store_of)

lemma account_keys_init: "account_keys init = []"
  by (simp add: account_keys_def init_def DataFrame_empty_def)

lemma is_valid_iff:
  "is_valid v \<longleftrightarrow> v \<in> set [''ASSET'', ''LIABILITY'', ''EQUITY'', ''INCOME'', ''EXPENSE'',
     ''CASH'', ''BANK'', ''CREDIT'']"
  by (simp add: is_valid_def value2member_map_def members_def)

text \<open>Evaluating the generator that draws 0, 1, 2, ...\<close>

lemma stake5:
  "stake 5 g = [shd g, shd (stl g), shd (stl (stl g)), shd (stl (stl (stl g))),
                shd (stl (stl (stl (stl g))))]"
  by (simp add: numeral_eq_Suc)

lemma sdrop5: "sdrop 5 g = stl (stl (stl (stl (stl g))))"
  by (simp add: numeral_eq_Suc)

lemma length_ascii_uppercase: "length ascii_uppercase = 26"
  by (simp add: ascii_uppercase_def)

lemma Suc5: "Suc (Suc (Suc (Suc (Suc n)))) = n + 5"
  by simp

lemma choices_nats_0: "choices (siterate Suc 0) ascii_uppercase 5 = (''ABCDE'', siterate Suc 5)"
  apply (simp only: choices_def stake5 sdrop5 length_ascii_uppercase siterate.simps list.map)
  apply (simp add: ascii_uppercase_def Suc5)
  done

lemma choices_nats_5: "choices (siterate Suc 5) ascii_uppercase 5 = (''FGHIJ'', siterate Suc 10)"
  apply (simp only: choices_def stake5 sdrop5 length_ascii_uppercase siterate.simps list.map)
  apply (simp add: ascii_uppercase_def Suc5)
  done

lemma choices_nats_10: "choices (siterate Suc 10) ascii_uppercase 5 = (''KLMNO'', siterate Suc 15)"
  apply (simp only: choices_def stake5 sdrop5 length_ascii_uppercase siterate.simps list.map)
  apply (simp add: ascii_uppercase_def Suc5)
  done

lemma candidate_nats:
  "candidate (siterate Suc 0) 0 = ''ABCDE''"
  "candidate (siterate Suc 0) (Suc 0) = ''FGHIJ''"
  by (simp_all add: candidate_Suc candidate_0 choices_nats_0 choices_nats_5)

section \<open>C1: the key create_account returns\<close>

text \<open>
  C1, as amended. For every valid creation (a recognised type; a parent key that is
  empty or present in the store) for which the generator at some point draws a key
  that is not in the store, \<^verbatim>\<open>create_account\<close> returns a key of five upper-case
  letters that is not among the account keys of the store at the time of the call,
  and the store after the call is the store before it with exactly one record
  appended, the new account's.
\<close>

theorem create_account_fresh_key:
  assumes "is_valid account_type"
    and "parent_key = [] \<or> Str parent_key \<in> set (account_keys s)"
    and "Str (candidate g n) \<notin> set (account_keys s)"
  shows "\<exists>key s' g'.
      create_account s g account_type name full_name parent_key account_number currency
        hidden optional_fields = Some (Inr key, s', g') \<and>
      valid_key key \<and> Str key \<notin> set (account_keys s) \<and>
      rows s' = rows s @ [new_record key parent_key account_type name full_name
                            account_number currency hidden optional_fields]"
proof -
  from generate_account_key_returns [OF assms(3)]
  obtain key g' where gen: "generate_account_key s g = Some (Inr key, g')" by blast
  from generate_account_key_sound [OF gen]
  have key: "valid_key key" "Str key \<notin> set (account_keys s)" by auto
  from assms(1,2) have
    "create_account s g account_type name full_name parent_key account_number currency
        hidden optional_fields =
     Some (Inr key,
           concat_frames s (DataFrame_of_dict
             (add_optional_fields optional_fields
                (new_account_required key parent_key account_type name full_name
                   account_number currency hidden))), g')"
    by (subst create_account_proceeds) (auto simp: gen)
  with key show ?thesis
    by (simp add: rows_concat_dict new_record_def)
qed

text \<open>The theorem of C1 at a store with one account: the first key drawn,
  \<open>ABCDE\<close>, is taken, the second is free.\<close>

theorem create_account_fresh_key_witness:
  "is_valid ''BANK'' \<and> Str ''ABCDE'' \<in> set (account_keys store1) \<and>
   Str (candidate (siterate Suc 0) (Suc 0)) \<notin> set (account_keys store1) \<and>
   (\<exists>key s' g'.
      create_account store1 (siterate Suc 0) ''BANK'' ''Checking'' ''Assets:Cash:Checking''
        ''ABCDE'' [] ''EUR'' False Map.empty = Some (Inr key, s', g') \<and>
      valid_key key \<and> Str key \<notin> set (account_keys store1) \<and>
      rows s' = rows store1 @ [new_record key ''ABCDE'' ''BANK'' ''Checking''
                                 ''Assets:Cash:Checking'' [] ''EUR'' False Map.empty])"
proof -
  have 1: "is_valid ''BANK''" by (simp add: is_valid_iff)
  have 2: "Str ''ABCDE'' \<in> set (account_keys store1)"
    by (simp add: store1_def account_keys_store_of cell_root_record)
  have 3: "Str (candidate (siterate Suc 0) (Suc 0)) \<notin> set (account_keys store1)"
    by (simp add: store1_def account_keys_store_of cell_root_record candidate_nats)
  from 2 have p: "''ABCDE'' = [] \<or> Str ''ABCDE'' \<in> set (account_keys store1)" by simp
  show ?thesis
    using 1 2 3 create_account_fresh_key [OF 1 p 3] by blast
qed

lemma account_keys_full_store:
  "account_keys full_store = map Str (List.n_lists 5 ascii_uppercase)"
  by (simp add: full_store_def account_keys_store_of comp_def cell_root_record)

lemma full_store_has_every_key:
  "valid_key k \<Longrightarrow> Str k \<in> set (account_keys full_store)"
  by (auto simp: account_keys_full_store valid_key_def set_n_lists list_all_iff)

lemma generate_account_key_full_store:
  "generate_account_key full_store g = None"
proof (cases "generate_account_key full_store g")
  case None
  then show ?thesis .
next
  case (Some y)
  then have "generate_account_key full_store g = Some (fst y, snd y)" by simp
  from generate_account_key_sound [OF this] full_store_has_every_key
  show ?thesis by blast
qed

text \<open>
  C1 as stated fails: in the store that already holds every five-letter key, a valid
  creation never returns, whatever the generator draws, since the loop of
  \<^verbatim>\<open>_generate_account_key\<close> only ends on a key that is not in the store.
\<close>

theorem create_account_full_store_never_returns:
  "is_valid ''ASSET'' \<and>
   create_account full_store (sconst 0) ''ASSET'' ''Cash'' ''Assets:Cash'' [] [] ''EUR'' False
     Map.empty = None"
  by (simp add: is_valid_iff create_account_proceeds generate_account_key_full_store)

section \<open>The outcomes of create_account\<close>

lemma InvalidType_invalid_type_error: "InvalidType (invalid_type_error t)"
  by (simp add: InvalidType_def invalid_type_error_def)

lemma UnknownParent_unknown_parent_error: "UnknownParent (unknown_parent_error p)"
  by (simp add: UnknownParent_def unknown_parent_error_def)

lemma not_InvalidType_unknown_parent_error: "\<not> InvalidType (unknown_parent_error p)"
  by (simp add: InvalidType_def unknown_parent_error_def)

lemma not_UnknownParent_invalid_type_error: "\<not> UnknownParent (invalid_type_error t)"
  by (simp add: UnknownParent_def invalid_type_error_def)

lemma create_account_returns_key:
  assumes "is_valid account_type"
    and "parent_key = [] \<or> ''account_key'' \<notin> set (columns s) \<or> Str parent_key \<in> set (account_keys s)"
    and "create_account s g account_type name full_name parent_key account_number currency
           hidden optional_fields = Some (res, s', g')"
  shows "\<exists>key. res = Inr key \<and> valid_key key \<and> Str key \<notin> set (account_keys s) \<and>
           generate_account_key s g = Some (Inr key, g') \<and>
           s' = concat_frames s (DataFrame_of_dict
                  (add_optional_fields optional_fields
                     (new_account_required key parent_key account_type name full_name
                        account_number currency hidden)))"
proof (cases "generate_account_key s g")
  case None
  with assms show ?thesis by (simp add: create_account_proceeds)
next
  case (Some y)
  obtain r g2 where y: "y = (r, g2)" by (cases y)
  from generate_account_key_sound [of s g r g2] Some y
  obtain key where "r = Inr key" "valid_key key" "Str key \<notin> set (account_keys s)" by auto
  with assms Some y show ?thesis by (auto simp add: create_account_proceeds)
qed

lemma create_account_error_cases:
  assumes "create_account s g account_type name full_name parent_key account_number currency
             hidden optional_fields = Some (Inl e, s', g')"
  shows "s' = s \<and> g' = g \<and>
         (if \<not> is_valid account_type then e = invalid_type_error account_type
          else e = unknown_parent_error parent_key \<and> parent_key \<noteq> [] \<and>
               ''account_key'' \<in> set (columns s) \<and> Str parent_key \<notin> set (account_keys s))"
proof (cases "is_valid account_type")
  case False
  with assms show ?thesis by (simp add: create_account_invalid_type)
next
  case True
  show ?thesis
  proof (cases "parent_key = [] \<or> ''account_key'' \<notin> set (columns s) \<or> Str parent_key \<in> set (account_keys s)")
    case True
    from create_account_returns_key [OF \<open>is_valid account_type\<close> True assms]
    show ?thesis by simp
  next
    case False
    with assms \<open>is_valid account_type\<close> show ?thesis
      by (simp add: create_account_unknown_parent)
  qed
qed


section \<open>C2: the invalid-type failure\<close>

text \<open>
  C2. \<^verbatim>\<open>create_account\<close> fails with the InvalidType error exactly when the type
  string is not one of the eight AccountType values; the failure carries the message
  built from the offending string and leaves the store (and the generator) as they
  were.
\<close>

theorem create_account_invalid_type_iff:
  "((\<exists>e s' g'. create_account s g account_type name full_name parent_key account_number
        currency hidden optional_fields = Some (Inl e, s', g') \<and> InvalidType e)
    \<longleftrightarrow> account_type \<notin> set [''ASSET'', ''LIABILITY'', ''EQUITY'', ''INCOME'', ''EXPENSE'',
          ''CASH'', ''BANK'', ''CREDIT''])
   \<and> (account_type \<notin> set [''ASSET'', ''LIABILITY'', ''EQUITY'', ''INCOME'', ''EXPENSE'',
          ''CASH'', ''BANK'', ''CREDIT'']
      \<longrightarrow> create_account s g account_type name full_name parent_key account_number
            currency hidden optional_fields
          = Some (Inl (invalid_type_error account_type), s, g))"
proof (cases "is_valid account_type")
  case True
  have "\<not> InvalidType e"
    if "create_account s g account_type name full_name parent_key account_number
          currency hidden optional_fields = Some (Inl e, s', g')" for e s' g'
    using create_account_error_cases [OF that] True
    by (simp add: not_InvalidType_unknown_parent_error)
  with True show ?thesis
    unfolding is_valid_iff by blast
next
  case False
  then have "create_account s g account_type name full_name parent_key account_number
        currency hidden optional_fields = Some (Inl (invalid_type_error account_type), s, g)"
    by (rule create_account_invalid_type)
  with False show ?thesis
    unfolding is_valid_iff using InvalidType_invalid_type_error by blast
qed

text \<open>The theorem of C2 at the type string \<open>SAVINGS\<close>.\<close>

theorem create_account_invalid_type_iff_witness:
  "''SAVINGS'' \<notin> set [''ASSET'', ''LIABILITY'', ''EQUITY'', ''INCOME'', ''EXPENSE'',
          ''CASH'', ''BANK'', ''CREDIT''] \<and>
   create_account store1 (siterate Suc 0) ''SAVINGS'' ''Cash'' ''Assets:Cash'' [] [] ''EUR''
     False Map.empty = Some (Inl (invalid_type_error ''SAVINGS''), store1, siterate Suc 0) \<and>
   InvalidType (invalid_type_error ''SAVINGS'')"
  using create_account_invalid_type_iff [of store1 "siterate Suc 0" "''SAVINGS''" "''Cash''"
      "''Assets:Cash''" "[]" "[]" "''EUR''" False Map.empty]
  by (simp add: InvalidType_invalid_type_error)

section \<open>C3: the unknown-parent failure\<close>

text \<open>
  C3. With a recognised type, in a store that has its \<^verbatim>\<open>account_key\<close> column (every
  state of the manager has it), \<^verbatim>\<open>create_account\<close> fails with the UnknownParent
  error exactly when the parent key is non-empty and is not the key of an account in
  the store; the failure leaves the store (and the generator) as they were.
\<close>

theorem create_account_unknown_parent_iff:
  assumes "is_valid account_type" and "''account_key'' \<in> set (columns s)"
  shows
  "((\<exists>e s' g'. create_account s g account_type name full_name parent_key account_number
        currency hidden optional_fields = Some (Inl e, s', g') \<and> UnknownParent e)
    \<longleftrightarrow> parent_key \<noteq> [] \<and> Str parent_key \<notin> set (account_keys s))
   \<and> (parent_key \<noteq> [] \<and> Str parent_key \<notin> set (account_keys s)
      \<longrightarrow> create_account s g account_type name full_name parent_key account_number
            currency hidden optional_fields
          = Some (Inl (unknown_parent_error parent_key), s, g))"
proof (cases "parent_key \<noteq> [] \<and> Str parent_key \<notin> set (account_keys s)")
  case True
  with assms have "create_account s g account_type name full_name parent_key account_number
        currency hidden optional_fields = Some (Inl (unknown_parent_error parent_key), s, g)"
    by (simp add: create_account_unknown_parent)
  with True show ?thesis
    using UnknownParent_unknown_parent_error by blast
next
  case False
  have "False"
    if "create_account s g account_type name full_name parent_key account_number
          currency hidden optional_fields = Some (Inl e, s', g')" for e s' g'
    using create_account_error_cases [OF that] assms(1) False by auto
  with False show ?thesis by blast
qed

text \<open>The theorem of C3 at a store with the one key \<open>ABCDE\<close> and the parent
  \<open>ZZZZZ\<close>.\<close>

theorem create_account_unknown_parent_iff_witness:
  "is_valid ''BANK'' \<and> ''account_key'' \<in> set (columns store1) \<and>
   ''ZZZZZ'' \<noteq> [] \<and> Str ''ZZZZZ'' \<notin> set (account_keys store1) \<and>
   create_account store1 (siterate Suc 0) ''BANK'' ''Checking'' ''Assets:Checking'' ''ZZZZZ'' []
     ''EUR'' False Map.empty = Some (Inl (unknown_parent_error ''ZZZZZ''), store1, siterate Suc 0) \<and>
   UnknownParent (unknown_parent_error ''ZZZZZ'')"
proof -
  have 1: "is_valid ''BANK''" by (simp add: is_valid_iff)
  have 2: "''account_key'' \<in> set (columns store1)"
    by (simp add: store1_def columns_store_of)
  have 3: "Str ''ZZZZZ'' \<notin> set (account_keys store1)"
    by (simp add: store1_def account_keys_store_of cell_root_record)
  show ?thesis
    using 1 2 3 create_account_unknown_parent_iff [OF 1 2, of "siterate Suc 0" "''Checking''"
      "''Assets:Checking''" "''ZZZZZ''" "[]" "''EUR''" False Map.empty]
    by (simp add: UnknownParent_unknown_parent_error)
qed

section \<open>The queries\<close>

lemma get_account_by_key_eq:
  "get_account_by_key s k =
     (if ''account_key'' \<notin> set (columns s) then (Inr None, s)
      else (case filter (\<lambda>r. py_eq (cell r ''account_key'') k) (rows s) of
              [] \<Rightarrow> (Inr None, s)
            | r # _ \<Rightarrow> (Inr (Some (row_series (columns s) r)), s)))"
  by (simp add: get_account_by_key_def getitem_present select_rows_cells iloc_def Let_def
      split: list.splits)

lemma get_account_by_key_frame: "snd (get_account_by_key s k) = s"
  by (simp add: get_account_by_key_eq split: list.splits)

lemma get_account_by_key_no_error: "\<exists>res. fst (get_account_by_key s k) = Inr res"
  by (simp add: get_account_by_key_eq split: list.splits)

lemma get_account_by_key_miss:
  "\<not> contains (account_keys s) k \<Longrightarrow> get_account_by_key s k = (Inr None, s)"
  by (auto simp add: get_account_by_key_eq contains_iff account_keys_def filter_empty_conv
      split: list.splits dest!: arg_cong[where f=set])

lemma get_children_eq:
  "get_children s p =
     (Inr (if ''parent_key'' \<in> set (columns s)
           then s\<lparr>rows := filter (\<lambda>r. py_eq (cell r ''parent_key'') p) (rows s)\<rparr>
           else DataFrame_empty []), s)"
  by (simp add: get_children_def getitem_present select_rows_cells)

lemma get_root_accounts_eq:
  "get_root_accounts s =
     (Inr (if ''parent_key'' \<in> set (columns s)
           then s\<lparr>rows := filter (\<lambda>r. cell r ''parent_key'' = Str []) (rows s)\<rparr>
           else DataFrame_empty []), s)"
  by (simp add: get_root_accounts_def getitem_present select_rows_cells py_eq_Str)

lemma path_loop_walk:
  "depth \<le> max_depth \<Longrightarrow>
     path_loop s path k depth = (Inr (rev (walk s k (max_depth - depth)) @ path), s)"
proof (induction s path k depth rule: path_loop.induct)
  case (1 s path k depth)
  show ?case
  proof (cases "truthy k \<and> depth < max_depth")
    case False
    then have "walk s k (max_depth - depth) = []"
      using "1.prems" by (cases "max_depth - depth") auto
    then have w: "rev (walk s k (max_depth - depth)) @ path = path" by simp
    from False have c: "(truthy k \<and> depth < max_depth) = False" by simp
    show ?thesis
      by (subst path_loop.simps) (simp only: c if_False w)
  next
    case True
    then obtain m where m: "max_depth - depth = Suc m" "m = max_depth - (depth + 1)"
      by (cases "max_depth - depth") auto
    obtain res where res: "get_account_by_key s k = (Inr res, s)"
      using get_account_by_key_no_error [of s k] get_account_by_key_frame [of s k]
      by (cases "get_account_by_key s k") auto
    show ?thesis
    proof (cases res)
      case None
      with True res m show ?thesis
        by (subst path_loop.simps) simp
    next
      case (Some account)
      from True have le: "depth + 1 \<le> max_depth" by simp
      from "1.IH" [OF True res [symmetric] refl Some le]
      have "path_loop s (k # path) (series_get account ''parent_key'' (Str [])) (depth + 1)
            = (Inr (rev (walk s (series_get account ''parent_key'' (Str [])) m) @ k # path), s)"
        using m by simp
      with True res m Some show ?thesis
        by (subst path_loop.simps) simp
    qed
  qed
qed

lemma get_account_path_walk:
  "get_account_path s k = (Inr (rev (walk s k max_depth)), s)"
  by (simp add: get_account_path_def path_loop_walk)

lemma length_walk: "length (walk s k n) \<le> n"
  by (induction n arbitrary: k) (auto split: sum.splits option.splits)

lemma filter_unique:
  "distinct (map f xs) \<Longrightarrow> x \<in> set xs \<Longrightarrow> filter (\<lambda>y. f y = f x) xs = [x]"
proof (induction xs)
  case Nil
  then show ?case by simp
next
  case (Cons y ys)
  show ?case
  proof (cases "x = y")
    case True
    with Cons.prems have "filter (\<lambda>z. f z = f x) ys = []"
      by (fastforce simp: filter_empty_conv image_iff)
    with True show ?thesis by simp
  next
    case False
    with Cons show ?thesis by auto
  qed
qed

lemma get_account_by_key_found:
  assumes "''account_key'' \<in> set (columns s)" and "distinct (account_keys s)"
    and "r \<in> set (rows s)" and "cell r ''account_key'' = Str a"
  shows "get_account_by_key s (Str a) = (Inr (Some (row_series (columns s) r)), s)"
proof -
  from assms(1,2) have "distinct (map (\<lambda>r. cell r ''account_key'') (rows s))"
    by (simp add: account_keys_def)
  from filter_unique [OF this assms(3)] assms(4)
  have "filter (\<lambda>y. py_eq (cell y ''account_key'') (Str a)) (rows s) = [r]"
    by (simp add: py_eq_Str)
  with assms(1) show ?thesis
    by (simp add: get_account_by_key_eq)
qed

lemma series_get_row_series:
  "c \<in> set cs \<Longrightarrow> series_get (row_series cs r) c d = cell r c"
  by (simp add: series_get_def row_series_def)

lemma walk_step:
  assumes "''account_key'' \<in> set (columns s)" and "''parent_key'' \<in> set (columns s)"
    and "distinct (account_keys s)"
    and "r \<in> set (rows s)" and "cell r ''account_key'' = Str a" and "a \<noteq> []"
  shows "walk s (Str a) (Suc n) = Str a # walk s (cell r ''parent_key'') n"
  using assms by (simp add: get_account_by_key_found series_get_row_series)

lemma walk_stop: "walk s (Str []) n = []"
  by (cases n) simp_all

lemma walk_miss: "\<not> contains (account_keys s) k \<Longrightarrow> walk s k n = []"
  by (cases n) (simp_all add: get_account_by_key_miss)

lemma max_depth_Suc: "max_depth = Suc 99"
  by (simp add: max_depth_def)

lemma walk_cyclic_store: "walk cyclic_store (Str ''ABCDE'') n = replicate n (Str ''ABCDE'')"
proof (induction n)
  case 0
  then show ?case by simp
next
  case (Suc n)
  have "walk cyclic_store (Str ''ABCDE'') (Suc n)
        = Str ''ABCDE'' # walk cyclic_store (cell (child_record ''ABCDE'' ''ABCDE'') ''parent_key'') n"
    by (rule walk_step)
       (simp_all add: cyclic_store_def columns_store_of account_keys_store_of rows_store_of
          cell_child_record)
  with Suc show ?case by (simp add: cell_child_record)
qed

section \<open>C7: the path walk is bounded\<close>

text \<open>
  C7. For every store, cyclic parent graphs included, and every starting key,
  \<^verbatim>\<open>get_account_path\<close> returns: it raises nothing, leaves the store as it was, and
  its result is the keys of the first 100 hops of the upward walk, root-most first,
  so at most 100 accounts. When the walk would go on past 100 hops the result is that
  partial path.
\<close>

theorem get_account_path_bounded:
  "\<exists>path. get_account_path s k = (Inr path, s) \<and> length path \<le> 100 \<and>
          path = rev (walk s k 100)"
  using length_walk [of s k 100] by (simp add: get_account_path_walk max_depth_def)

text \<open>The theorem of C7 at an account that is its own parent: the walk is cut at 100
  hops and the partial path is returned.\<close>

theorem get_account_path_bounded_witness:
  "\<exists>path. get_account_path cyclic_store (Str ''ABCDE'') = (Inr path, cyclic_store) \<and>
          length path = 100 \<and> path = replicate 100 (Str ''ABCDE'')"
  using get_account_path_bounded [of cyclic_store "Str ''ABCDE''"]
  by (simp add: walk_cyclic_store)

section \<open>C8: the children of the empty key are the roots\<close>

text \<open>
  C8. For every store, \<^verbatim>\<open>get_children("")\<close> returns what \<^verbatim>\<open>get_root_accounts()\<close>
  returns: the accounts whose \<^verbatim>\<open>parent_key\<close> is the empty string, in store order
  (an empty frame when the store has no \<^verbatim>\<open>parent_key\<close> column).
\<close>

theorem get_children_empty_is_get_root_accounts:
  "get_children s (Str []) = get_root_accounts s \<and>
   get_root_accounts s =
     (Inr (if ''parent_key'' \<in> set (columns s)
           then s\<lparr>rows := filter (\<lambda>r. cell r ''parent_key'' = Str []) (rows s)\<rparr>
           else DataFrame_empty []), s)"
  by (simp add: get_children_eq get_root_accounts_eq py_eq_Str)

text \<open>The theorem of C8 at a root with one child: both calls return the root alone.\<close>

theorem get_children_empty_is_get_root_accounts_witness:
  "get_children store2 (Str []) = get_root_accounts store2 \<and>
   get_root_accounts store2 = (Inr store1, store2)"
  using get_children_empty_is_get_root_accounts [of store2]
  by (simp add: store2_def store1_def store_of_def REQUIRED_COLUMNS_def cell_root_record
      cell_child_record)

section \<open>C9: lookup misses are soft failures\<close>

text \<open>
  C9. For every store and argument, \<^verbatim>\<open>get_account_by_key\<close> and \<^verbatim>\<open>get_children\<close>
  raise nothing: neither the column access nor \<^verbatim>\<open>iloc[0]\<close> fails, because the code
  guards them. When no account has the key, \<^verbatim>\<open>get_account_by_key\<close> returns
  \<^verbatim>\<open>None\<close>; when no account has the given parent key, \<^verbatim>\<open>get_children\<close> returns a
  frame without rows.
\<close>

theorem lookup_misses_are_soft:
  "(\<exists>res. get_account_by_key s k = (Inr res, s)) \<and>
   (\<exists>d. get_children s p = (Inr d, s)) \<and>
   (\<not> contains (account_keys s) k \<longrightarrow> get_account_by_key s k = (Inr None, s)) \<and>
   (\<not> list_ex (\<lambda>r. py_eq (cell r ''parent_key'') p) (rows s) \<longrightarrow>
      (\<exists>d. get_children s p = (Inr d, s) \<and> rows d = []))"
proof -
  have 1: "\<exists>res. get_account_by_key s k = (Inr res, s)"
    using get_account_by_key_no_error [of s k] get_account_by_key_frame [of s k]
    by (cases "get_account_by_key s k") auto
  have 2: "\<exists>d. get_children s p = (Inr d, s)"
    by (simp add: get_children_eq)
  have 3: "rows d = []"
    if "\<not> list_ex (\<lambda>r. py_eq (cell r ''parent_key'') p) (rows s)"
      and "get_children s p = (Inr d, s)" for d
    using that
    by (auto simp add: get_children_eq list_ex_iff filter_empty_conv DataFrame_empty_def
        split: if_splits)
  from 1 2 3 show ?thesis
    by (auto simp add: get_account_by_key_miss)
qed

text \<open>The theorem of C9 at a store with the one key \<open>ABCDE\<close>, looking up
  \<open>ZZZZZ\<close>.\<close>

theorem lookup_misses_are_soft_witness:
  "\<not> contains (account_keys store1) (Str ''ZZZZZ'') \<and>
   get_account_by_key store1 (Str ''ZZZZZ'') = (Inr None, store1) \<and>
   \<not> list_ex (\<lambda>r. py_eq (cell r ''parent_key'') (Str ''ZZZZZ'')) (rows store1) \<and>
   (\<exists>d. get_children store1 (Str ''ZZZZZ'') = (Inr d, store1) \<and> rows d = [])"
proof -
  have 1: "\<not> contains (account_keys store1) (Str ''ZZZZZ'')"
    by (simp add: contains_Str store1_def account_keys_store_of cell_root_record)
  have 2: "\<not> list_ex (\<lambda>r. py_eq (cell r ''parent_key'') (Str ''ZZZZZ'')) (rows store1)"
    by (simp add: store1_def rows_store_of cell_root_record)
  show ?thesis
    using 1 2 lookup_misses_are_soft [of store1 "Str ''ZZZZZ''" "Str ''ZZZZZ''"] by blast
qed

section \<open>C10: the queries are read-only\<close>

text \<open>
  C10. For every store and argument, each of \<^verbatim>\<open>get_account_by_key\<close>,
  \<^verbatim>\<open>get_children\<close>, \<^verbatim>\<open>get_root_accounts\<close>, \<^verbatim>\<open>get_account_path\<close> and
  \<^verbatim>\<open>get_all_accounts\<close> leaves the store exactly as it was; and
  \<^verbatim>\<open>get_account_path\<close> on a key that is not in the store returns the empty
  sequence.
\<close>

theorem queries_are_read_only:
  "snd (get_account_by_key s k) = s \<and>
   snd (get_children s p) = s \<and>
   snd (get_root_accounts s) = s \<and>
   snd (get_account_path s k) = s \<and>
   snd (get_all_accounts s) = s \<and>
   (\<not> contains (account_keys s) k \<longrightarrow> get_account_path s k = (Inr [], s))"
  by (simp add: get_account_by_key_frame get_children_eq get_root_accounts_eq
      get_account_path_walk get_all_accounts_def walk_miss)

text \<open>The theorem of C10 at a store with the one key \<open>ABCDE\<close>.\<close>

theorem queries_are_read_only_witness:
  "\<not> contains (account_keys store1) (Str ''ZZZZZ'') \<and>
   get_account_path store1 (Str ''ZZZZZ'') = (Inr [], store1) \<and>
   snd (get_account_by_key store1 (Str ''ABCDE'')) = store1 \<and>
   snd (get_children store1 (Str ''ABCDE'')) = store1 \<and>
   snd (get_root_accounts store1) = store1 \<and>
   snd (get_account_path store1 (Str ''ABCDE'')) = store1 \<and>
   snd (get_all_accounts store1) = store1"
proof -
  have 1: "\<not> contains (account_keys store1) (Str ''ZZZZZ'')"
    by (simp add: contains_Str store1_def account_keys_store_of cell_root_record)
  show ?thesis
    using 1 queries_are_read_only [of store1 "Str ''ZZZZZ''" "Str ''ABCDE''"]
      queries_are_read_only [of store1 "Str ''ABCDE''" "Str ''ABCDE''"]
    by simp
qed

section \<open>The record a creation stores\<close>

lemma create_account_success:
  assumes "create_account s g account_type name full_name parent_key account_number currency
             hidden optional_fields = Some (Inr key, s', g')"
  shows "valid_key key \<and> Str key \<notin> set (account_keys s) \<and>
         s' = concat_frames s (DataFrame_of_dict
                (add_optional_fields optional_fields
                   (new_account_required key parent_key account_type name full_name
                      account_number currency hidden)))"
proof (cases "is_valid account_type")
  case False
  with assms show ?thesis by (simp add: create_account_invalid_type)
next
  case True
  show ?thesis
  proof (cases "parent_key = [] \<or> ''account_key'' \<notin> set (columns s) \<or> Str parent_key \<in> set (account_keys s)")
    case False
    with assms True show ?thesis by (simp add: create_account_unknown_parent)
  next
    case ok: True
    from create_account_returns_key [OF True ok assms] show ?thesis by auto
  qed
qed

lemma rows_after_create:
  assumes "create_account s g account_type name full_name parent_key account_number currency
             hidden optional_fields = Some (Inr key, s', g')"
  shows "rows s' = rows s @ [new_record key parent_key account_type name full_name
                               account_number currency hidden optional_fields]"
  using create_account_success [OF assms] by (simp add: rows_concat_dict new_record_def)

lemma columns_after_create:
  assumes "create_account s g account_type name full_name parent_key account_number currency
             hidden optional_fields = Some (Inr key, s', g')"
  shows "set (columns s') = set (columns s) \<union>
           dom (new_record key parent_key account_type name full_name
                  account_number currency hidden optional_fields)"
  using create_account_success [OF assms]
  by (auto simp add: columns_concat_dict new_record_def dom_map_of_conv_image_fst)

lemma failed_create_keeps_store:
  assumes "create_account s g account_type name full_name parent_key account_number currency
             hidden optional_fields = Some (Inl e, s', g')"
  shows "s' = s"
  using create_account_error_cases [OF assms] by simp

lemma get_new_account:
  assumes cr: "create_account s g account_type name full_name parent_key account_number currency
             hidden optional_fields = Some (Inr key, s', g')"
    and col: "''account_key'' \<in> set (columns s)"
  shows "get_account_by_key s' (Str key) =
           (Inr (Some (row_series (columns s')
              (new_record key parent_key account_type name full_name
                 account_number currency hidden optional_fields))), s')"
proof -
  from create_account_success [OF cr] col
  have "\<forall>r\<in>set (rows s). cell r ''account_key'' \<noteq> Str key"
    by (force simp: account_keys_def image_iff)
  then have old: "filter (\<lambda>r. cell r ''account_key'' = Str key) (rows s) = []"
    by (simp add: filter_empty_conv)
  from columns_after_create [OF cr] col have col': "''account_key'' \<in> set (columns s')"
    by simp
  show ?thesis
    by (simp add: get_account_by_key_eq col' rows_after_create [OF cr] old py_eq_Str
        cell_new_record)
qed

lemma row_series_Some:
  "r c = Some v \<Longrightarrow> c \<in> set cs \<Longrightarrow> row_series cs r c = Some v"
  by (simp add: row_series_def cell_def)

text \<open>Creations in the example stores: three calls build \<open>store3\<close> from the
  empty store.\<close>

lemma dom_new_record:
  "dom (new_record k p t n f a c h opt) \<subseteq> set (REQUIRED_COLUMNS @ OPTIONAL_COLUMNS)"
proof
  fix x
  assume "x \<in> dom (new_record k p t n f a c h opt)"
  then have "new_record k p t n f a c h opt x \<noteq> None" by blast
  with new_record_other [of x k p t n f a c h opt]
  show "x \<in> set (REQUIRED_COLUMNS @ OPTIONAL_COLUMNS)" by blast
qed

lemma concat_store_of:
  "concat_frames (store_of rs) (DataFrame_of_dict
      (add_optional_fields opt (new_account_required k p t n f a c h)))
   = store_of (rs @ [new_record k p t n f a c h opt])"
proof -
  let ?d = "add_optional_fields opt (new_account_required k p t n f a c h)"
  have "fst ` set ?d \<subseteq> set (REQUIRED_COLUMNS @ OPTIONAL_COLUMNS)"
    using dom_new_record [of k p t n f a c h opt]
    by (simp add: new_record_def dom_map_of_conv_image_fst)
  then have "filter (\<lambda>c. c \<notin> set (REQUIRED_COLUMNS @ OPTIONAL_COLUMNS)) (map fst ?d) = []"
    by (auto simp: filter_empty_conv simp del: set_append)
  then show ?thesis
    by (simp add: concat_frames_def DataFrame_of_dict_def store_of_def new_record_def
        del: set_append)
qed

lemma create_account_store_of:
  assumes "is_valid t"
    and "p = [] \<or> Str p \<in> set (map (\<lambda>r. cell r ''account_key'') rs)"
    and "choices g ascii_uppercase 5 = (k, g')"
    and "Str k \<notin> set (map (\<lambda>r. cell r ''account_key'') rs)"
  shows "create_account (store_of rs) g t n f p a c h opt
         = Some (Inr k, store_of (rs @ [new_record k p t n f a c h opt]), g')"
proof -
  from assms(3,4) have "generate_account_key (store_of rs) g = Some (Inr k, g')"
    by (subst generate_account_key_unfold) (simp add: account_keys_store_of)
  with assms(1,2) show ?thesis
    by (subst create_account_proceeds) (auto simp: account_keys_store_of concat_store_of)
qed

lemma init_store_of: "init = store_of []"
  by (simp add: init_def store_of_def DataFrame_empty_def)

lemma create_first_account:
  "create_account init (siterate Suc 0) ''ASSET'' ''ABCDE'' ''ABCDE'' [] [] ''EUR'' False Map.empty
   = Some (Inr ''ABCDE'', store1, siterate Suc 5)"
  unfolding init_store_of store1_def root_record_def
  by (subst create_account_store_of [OF _ _ choices_nats_0]) (simp_all add: is_valid_iff)

lemma create_second_account:
  "create_account store1 (siterate Suc 5) ''BANK'' ''FGHIJ'' ''FGHIJ'' ''ABCDE'' [] ''EUR'' False
     Map.empty
   = Some (Inr ''FGHIJ'', store2, siterate Suc 10)"
  unfolding store1_def store2_def child_record_def
  by (subst create_account_store_of [OF _ _ choices_nats_5])
     (simp_all add: is_valid_iff cell_root_record)

lemma create_third_account:
  "create_account store2 (siterate Suc 10) ''BANK'' ''KLMNO'' ''KLMNO'' ''FGHIJ'' [] ''EUR'' False
     Map.empty
   = Some (Inr ''KLMNO'', store3, siterate Suc 15)"
  unfolding store3_def store2_def
  by (subst create_account_store_of [OF _ _ choices_nats_10])
     (simp_all add: is_valid_iff cell_root_record cell_child_record child_record_def [symmetric])

section \<open>C5: create, then get\<close>

text \<open>
  C5. In a store that has its \<^verbatim>\<open>account_key\<close> column (every state of the manager
  has it), if \<^verbatim>\<open>create_account\<close> returns the key \<open>k1\<close> then
  \<^verbatim>\<open>get_account_by_key(k1)\<close> on the store after the call returns a record whose
  \<^verbatim>\<open>account_key\<close> is \<open>k1\<close> and whose type, name, full name, parent key, account
  number, currency and hidden flag are the values passed, as is every recognised
  optional field that was supplied.
\<close>

theorem create_then_get_round_trip:
  assumes cr: "create_account s g account_type name full_name parent_key account_number currency
             hidden optional_fields = Some (Inr k1, s', g')"
    and col: "''account_key'' \<in> set (columns s)"
  shows "\<exists>account. get_account_by_key s' (Str k1) = (Inr (Some account), s') \<and>
           account ''account_key'' = Some (Str k1) \<and>
           account ''type'' = Some (Str account_type) \<and>
           account ''name'' = Some (Str name) \<and>
           account ''full_name'' = Some (Str full_name) \<and>
           account ''parent_key'' = Some (Str parent_key) \<and>
           account ''account_number'' = Some (Str account_number) \<and>
           account ''currency'' = Some (Str currency) \<and>
           account ''hidden'' = Some (Bool hidden) \<and>
           (\<forall>fld\<in>set OPTIONAL_COLUMNS. \<forall>v. optional_fields fld = Some v \<longrightarrow> account fld = Some v)"
proof -
  let ?new = "new_record k1 parent_key account_type name full_name account_number currency
                hidden optional_fields"
  have sel: "row_series (columns s') ?new c = Some v" if "?new c = Some v" for c v
  proof -
    from that have "c \<in> dom ?new" by blast
    with columns_after_create [OF cr] have "c \<in> set (columns s')" by simp
    with that show ?thesis by (rule row_series_Some)
  qed
  show ?thesis
    by (intro exI [of _ "row_series (columns s') ?new"] conjI ballI allI impI
        get_new_account [OF cr col] sel new_record_required)
       (simp add: new_record_optional)
qed

text \<open>The theorem of C5 at a store with one account, creating a child with a
  description.\<close>

theorem create_then_get_round_trip_witness:
  "\<exists>s' g' account.
     create_account store1 (siterate Suc 5) ''BANK'' ''Checking'' ''Assets:Cash:Checking''
       ''ABCDE'' ''12345678'' ''EUR'' False [''description'' \<mapsto> Str ''Main checking account'']
       = Some (Inr ''FGHIJ'', s', g') \<and>
     get_account_by_key s' (Str ''FGHIJ'') = (Inr (Some account), s') \<and>
     account ''type'' = Some (Str ''BANK'') \<and>
     account ''name'' = Some (Str ''Checking'') \<and>
     account ''full_name'' = Some (Str ''Assets:Cash:Checking'') \<and>
     account ''parent_key'' = Some (Str ''ABCDE'') \<and>
     account ''account_number'' = Some (Str ''12345678'') \<and>
     account ''description'' = Some (Str ''Main checking account'')"
proof -
  let ?opt = "[''description'' \<mapsto> Str ''Main checking account'']"
  have cr: "create_account (store_of [root_record ''ABCDE'']) (siterate Suc 5) ''BANK'' ''Checking''
       ''Assets:Cash:Checking'' ''ABCDE'' ''12345678'' ''EUR'' False ?opt
     = Some (Inr ''FGHIJ'',
             store_of ([root_record ''ABCDE''] @ [new_record ''FGHIJ'' ''ABCDE'' ''BANK''
                ''Checking'' ''Assets:Cash:Checking'' ''12345678'' ''EUR'' False ?opt]),
             siterate Suc 10)"
    by (subst create_account_store_of [OF _ _ choices_nats_5])
       (simp_all add: is_valid_iff cell_root_record)
  have col: "''account_key'' \<in> set (columns (store_of [root_record ''ABCDE'']))"
    by (rule columns_store_of)
  have d: "''description'' \<in> set OPTIONAL_COLUMNS"
    by (simp add: OPTIONAL_COLUMNS_def)
  from create_then_get_round_trip [OF cr col] d cr show ?thesis
    unfolding store1_def by fastforce
qed

lemma walk_root:
  assumes "''account_key'' \<in> set (columns s)" and "''parent_key'' \<in> set (columns s)"
    and "distinct (account_keys s)"
    and "r \<in> set (rows s)" and "cell r ''account_key'' = Str a" and "a \<noteq> []"
    and "cell r ''parent_key'' = Str []"
  shows "walk s (Str a) (Suc n) = [Str a]"
  using walk_step [OF assms(1-6)] assms(7) by (simp add: walk_stop)

section \<open>C6: the path is root-first\<close>

text \<open>
  C6. In a store with its \<^verbatim>\<open>account_key\<close> and \<^verbatim>\<open>parent_key\<close> columns and
  pairwise distinct, non-empty account keys: for an account \<open>A\<close> with empty parent
  key \<^verbatim>\<open>get_account_path(A)\<close> is the one-element sequence \<open>[A]\<close>; and for a chain
  where \<open>A\<close> is a root, \<open>B\<close>'s parent is \<open>A\<close> and \<open>C\<close>'s parent is \<open>B\<close>,
  \<^verbatim>\<open>get_account_path(C)\<close> is \<open>[A, B, C]\<close>.
\<close>

theorem get_account_path_root_first:
  assumes "''account_key'' \<in> set (columns s)" and "''parent_key'' \<in> set (columns s)"
    and "distinct (account_keys s)"
  shows
  "(ra \<in> set (rows s) \<and> cell ra ''account_key'' = Str a \<and> a \<noteq> [] \<and>
    cell ra ''parent_key'' = Str []
      \<longrightarrow> get_account_path s (Str a) = (Inr [Str a], s))
   \<and>
   (ra \<in> set (rows s) \<and> cell ra ''account_key'' = Str a \<and> a \<noteq> [] \<and>
    cell ra ''parent_key'' = Str [] \<and>
    rb \<in> set (rows s) \<and> cell rb ''account_key'' = Str b \<and> b \<noteq> [] \<and>
    cell rb ''parent_key'' = Str a \<and>
    rc \<in> set (rows s) \<and> cell rc ''account_key'' = Str c \<and> c \<noteq> [] \<and>
    cell rc ''parent_key'' = Str b
      \<longrightarrow> get_account_path s (Str c) = (Inr [Str a, Str b, Str c], s))"
proof (intro conjI impI)
  assume "ra \<in> set (rows s) \<and> cell ra ''account_key'' = Str a \<and> a \<noteq> [] \<and>
    cell ra ''parent_key'' = Str []"
  then have "walk s (Str a) (Suc 99) = [Str a]"
    using walk_root [OF assms, of ra a 99] by simp
  then show "get_account_path s (Str a) = (Inr [Str a], s)"
    by (simp add: get_account_path_walk max_depth_Suc)
next
  assume h: "ra \<in> set (rows s) \<and> cell ra ''account_key'' = Str a \<and> a \<noteq> [] \<and>
    cell ra ''parent_key'' = Str [] \<and>
    rb \<in> set (rows s) \<and> cell rb ''account_key'' = Str b \<and> b \<noteq> [] \<and>
    cell rb ''parent_key'' = Str a \<and>
    rc \<in> set (rows s) \<and> cell rc ''account_key'' = Str c \<and> c \<noteq> [] \<and>
    cell rc ''parent_key'' = Str b"
  then have 1: "walk s (Str a) (Suc 97) = [Str a]"
    using walk_root [OF assms, of ra a 97] by simp
  from h have 2: "walk s (Str b) (Suc (Suc 97)) = Str b # walk s (Str a) (Suc 97)"
    using walk_step [OF assms, of rb b "Suc 97"] by simp
  from h have 3: "walk s (Str c) (Suc (Suc (Suc 97))) = Str c # walk s (Str b) (Suc (Suc 97))"
    using walk_step [OF assms, of rc c "Suc (Suc 97)"] by simp
  have "max_depth = Suc (Suc (Suc 97))" by (simp add: max_depth_def)
  with 1 2 3 show "get_account_path s (Str c) = (Inr [Str a, Str b, Str c], s)"
    by (simp add: get_account_path_walk)
qed

text \<open>The theorem of C6 at the chain of three of \<open>store3\<close>.\<close>

theorem get_account_path_root_first_witness:
  "''account_key'' \<in> set (columns store3) \<and> ''parent_key'' \<in> set (columns store3) \<and>
   distinct (account_keys store3) \<and>
   get_account_path store3 (Str ''ABCDE'') = (Inr [Str ''ABCDE''], store3) \<and>
   get_account_path store3 (Str ''KLMNO'')
     = (Inr [Str ''ABCDE'', Str ''FGHIJ'', Str ''KLMNO''], store3)"
proof -
  have 1: "''account_key'' \<in> set (columns store3)" "''parent_key'' \<in> set (columns store3)"
    by (simp_all add: store3_def columns_store_of)
  have 2: "distinct (account_keys store3)"
    by (simp add: store3_def account_keys_store_of cell_root_record cell_child_record)
  have 3: "rows store3 = [root_record ''ABCDE'', child_record ''FGHIJ'' ''ABCDE'',
                      child_record ''KLMNO'' ''FGHIJ'']"
    by (simp add: store3_def rows_store_of)
  show ?thesis
    using 1 2 get_account_path_root_first [OF 1 2, of "root_record ''ABCDE''" "''ABCDE''"
        "child_record ''FGHIJ'' ''ABCDE''" "''FGHIJ''" "child_record ''KLMNO'' ''FGHIJ''" "''KLMNO''"]
    by (simp add: 3 cell_root_record cell_child_record)
qed

section \<open>Reachable stores\<close>

lemma create_account_success_parent:
  assumes "create_account s g account_type name full_name parent_key account_number currency
             hidden optional_fields = Some (Inr key, s', g')"
  shows "parent_key = [] \<or> ''account_key'' \<notin> set (columns s) \<or>
         Str parent_key \<in> set (account_keys s)"
proof (rule ccontr)
  assume n: "\<not> ?thesis"
  show False
  proof (cases "is_valid account_type")
    case True
    with n assms show False by (simp add: create_account_unknown_parent)
  next
    case False
    with assms show False by (simp add: create_account_invalid_type)
  qed
qed

lemma reachable_columns:
  "reachable s \<Longrightarrow> set (columns s) = set (REQUIRED_COLUMNS @ OPTIONAL_COLUMNS)"
proof (induction rule: reachable.induct)
  case r_init
  show ?case by (simp add: init_def DataFrame_empty_def)
next
  case (r_create s g account_type name full_name parent_key account_number currency hidden
      optional_fields res s' g')
  show ?case
  proof (cases res)
    case (Inl e)
    with r_create show ?thesis by (auto dest: failed_create_keeps_store)
  next
    case (Inr key)
    with r_create.hyps(2) have
      "set (columns s') = set (columns s) \<union>
         dom (new_record key parent_key account_type name full_name account_number currency
                hidden optional_fields)"
      by (intro columns_after_create) simp
    with r_create.IH dom_new_record [of key parent_key account_type name full_name
        account_number currency hidden optional_fields]
    show ?thesis by blast
  qed
qed (simp_all add: get_account_by_key_frame get_children_eq get_root_accounts_eq
      get_account_path_walk get_all_accounts_def)

lemma reachable_has_columns:
  "reachable s \<Longrightarrow> ''account_key'' \<in> set (columns s) \<and> ''parent_key'' \<in> set (columns s)"
  by (simp add: reachable_columns REQUIRED_COLUMNS_def)

lemma parents_first_snoc:
  assumes pf: "parents_first rs"
    and key: "cell r ''account_key'' = Str k" "valid_key k"
    and fresh: "Str k \<notin> set (map (\<lambda>r. cell r ''account_key'') rs)"
    and par: "cell r ''parent_key'' = Str [] \<or>
              cell r ''parent_key'' \<in> set (map (\<lambda>r. cell r ''account_key'') rs)"
  shows "parents_first (rs @ [r])"
  unfolding parents_first_def
proof (intro allI impI)
  fix i assume i: "i < length (rs @ [r])"
  let ?P = "\<lambda>i. (\<exists>k. cell ((rs @ [r]) ! i) ''account_key'' = Str k \<and> valid_key k) \<and>
        (\<forall>j<i. cell ((rs @ [r]) ! j) ''account_key'' \<noteq> cell ((rs @ [r]) ! i) ''account_key'') \<and>
        (cell ((rs @ [r]) ! i) ''parent_key'' = Str [] \<or>
         (\<exists>j<i. cell ((rs @ [r]) ! i) ''parent_key'' = cell ((rs @ [r]) ! j) ''account_key''))"
  show "?P i"
  proof (cases "i < length rs")
    case True
    from pf True have
      k: "\<exists>k. cell (rs ! i) ''account_key'' = Str k \<and> valid_key k" and
      d: "\<forall>j<i. cell (rs ! j) ''account_key'' \<noteq> cell (rs ! i) ''account_key''" and
      p: "cell (rs ! i) ''parent_key'' = Str [] \<or>
          (\<exists>j<i. cell (rs ! i) ''parent_key'' = cell (rs ! j) ''account_key'')"
      unfolding parents_first_def by blast+
    have old: "(rs @ [r]) ! j = rs ! j" if "j \<le> i" for j
      using that True by (simp add: nth_append)
    from k have "\<exists>k. cell ((rs @ [r]) ! i) ''account_key'' = Str k \<and> valid_key k"
      by (simp add: old)
    moreover from d have
      "\<forall>j<i. cell ((rs @ [r]) ! j) ''account_key'' \<noteq> cell ((rs @ [r]) ! i) ''account_key''"
      by (simp add: old)
    moreover from p have
      "cell ((rs @ [r]) ! i) ''parent_key'' = Str [] \<or>
         (\<exists>j<i. cell ((rs @ [r]) ! i) ''parent_key'' = cell ((rs @ [r]) ! j) ''account_key'')"
      by (auto simp: old)
    ultimately show ?thesis by blast
  next
    case False
    with i have il: "i = length rs" by simp
    have a: "\<forall>j<length rs. cell (rs ! j) ''account_key'' \<noteq> Str k"
    proof (intro allI impI)
      fix j assume "j < length rs"
      then have "cell (rs ! j) ''account_key'' \<in> set (map (\<lambda>r. cell r ''account_key'') rs)"
        by simp
      with fresh show "cell (rs ! j) ''account_key'' \<noteq> Str k" by metis
    qed
    have b: "cell r ''parent_key'' = Str [] \<or>
             (\<exists>j<length rs. cell r ''parent_key'' = cell (rs ! j) ''account_key'')"
      using par by (auto simp: in_set_conv_nth)
    from a b key show ?thesis
      unfolding il by (auto simp: nth_append)
  qed
qed

lemma reachable_parents_first:
  "reachable s \<Longrightarrow> parents_first (rows s)"
proof (induction rule: reachable.induct)
  case r_init
  show ?case by (simp add: init_def DataFrame_empty_def parents_first_def)
next
  case (r_create s g account_type name full_name parent_key account_number currency hidden
      optional_fields res s' g')
  show ?case
  proof (cases res)
    case (Inl e)
    with r_create show ?thesis by (auto dest: failed_create_keeps_store)
  next
    case (Inr key)
    with r_create.hyps(2) have cr:
      "create_account s g account_type name full_name parent_key account_number currency
         hidden optional_fields = Some (Inr key, s', g')"
      by simp
    let ?new = "new_record key parent_key account_type name full_name account_number currency
                  hidden optional_fields"
    from reachable_has_columns [OF r_create.hyps(1)]
    have keys: "account_keys s = map (\<lambda>r. cell r ''account_key'') (rows s)"
      by (simp add: account_keys_def)
    from create_account_success [OF cr] have k: "valid_key key" "Str key \<notin> set (account_keys s)"
      by simp_all
    from create_account_success_parent [OF cr] reachable_has_columns [OF r_create.hyps(1)]
    have p: "parent_key = [] \<or> Str parent_key \<in> set (account_keys s)" by simp
    have "parents_first (rows s @ [?new])"
      by (rule parents_first_snoc [OF r_create.IH, of _ key])
         (use k p keys in \<open>auto simp: cell_new_record\<close>)
    then show ?thesis by (simp add: rows_after_create [OF cr])
  qed
qed (simp_all add: get_account_by_key_frame get_children_eq get_root_accounts_eq
      get_account_path_walk get_all_accounts_def)

lemma reaches_root_Suc: "reaches_root s n k \<Longrightarrow> reaches_root s (Suc n) k"
proof (induction n arbitrary: k)
  case 0
  then show ?case by (auto simp: list_ex_iff)
next
  case (Suc n)
  from Suc.prems obtain r where r: "r \<in> set (rows s)" "cell r ''account_key'' = k"
    "cell r ''parent_key'' = Str [] \<or> reaches_root s n (cell r ''parent_key'')"
    by (auto simp: list_ex_iff)
  with Suc.IH have "cell r ''parent_key'' = Str [] \<or> reaches_root s (Suc n) (cell r ''parent_key'')"
    by blast
  with r(1,2) show ?case
    by (subst reaches_root.simps) (auto simp: list_ex_iff simp del: reaches_root.simps)
qed

lemma reaches_root_mono: "reaches_root s n k \<Longrightarrow> n \<le> m \<Longrightarrow> reaches_root s m k"
  by (induction m) (auto simp: le_Suc_eq dest: reaches_root_Suc simp del: reaches_root.simps)

lemma parents_first_reaches_root:
  assumes "parents_first (rows s)" and "i < length (rows s)"
  shows "reaches_root s i (cell (rows s ! i) ''account_key'')"
  using assms(2)
proof (induction i rule: less_induct)
  case (less i)
  let ?r = "rows s ! i"
  from less.prems have mem: "?r \<in> set (rows s)" by simp
  from assms(1) less.prems have
    par: "cell ?r ''parent_key'' = Str [] \<or>
          (\<exists>j<i. cell ?r ''parent_key'' = cell (rows s ! j) ''account_key'')"
    unfolding parents_first_def by blast
  show ?case
  proof (cases "cell ?r ''parent_key'' = Str []")
    case True
    with mem show ?thesis
      by (cases i) (auto simp: list_ex_iff)
  next
    case False
    with par obtain j where j: "j < i" "cell ?r ''parent_key'' = cell (rows s ! j) ''account_key''"
      by blast
    then obtain i' where i': "i = Suc i'" by (cases i) auto
    from less.IH [OF j(1)] j(1) less.prems
    have "reaches_root s j (cell (rows s ! j) ''account_key'')" by simp
    then have "reaches_root s i' (cell ?r ''parent_key'')"
      using j i' by (auto intro: reaches_root_mono)
    with mem show ?thesis
      unfolding i' by (subst reaches_root.simps) (auto simp: list_ex_iff simp del: reaches_root.simps)
  qed
qed

lemma parents_first_not_own_parent:
  assumes "parents_first (rows s)" and "i < length (rows s)"
  shows "cell (rows s ! i) ''parent_key'' \<noteq> cell (rows s ! i) ''account_key''"
proof -
  from assms obtain k where k: "cell (rows s ! i) ''account_key'' = Str k" "valid_key k"
    and d: "\<forall>j<i. cell (rows s ! j) ''account_key'' \<noteq> cell (rows s ! i) ''account_key''"
    and par: "cell (rows s ! i) ''parent_key'' = Str [] \<or>
          (\<exists>j<i. cell (rows s ! i) ''parent_key'' = cell (rows s ! j) ''account_key'')"
    unfolding parents_first_def by blast
  from k(2) have "k \<noteq> []" by (auto simp: valid_key_def)
  with k(1) d par show ?thesis by auto
qed

section \<open>C4: the parent graph of a reachable store\<close>

text \<open>
  C4, as amended. In every store state reachable from the empty store by the methods
  of \<^verbatim>\<open>account_manager.py\<close> (\<^verbatim>\<open>create_account\<close>, whatever its outcome, and the
  queries), the parent graph is acyclic: following \<^verbatim>\<open>parent_key\<close> links from any
  stored account reaches an account with empty \<^verbatim>\<open>parent_key\<close> within as many hops
  as the store has accounts, and no account's \<^verbatim>\<open>parent_key\<close> equals its own
  \<^verbatim>\<open>account_key\<close>.
\<close>

theorem reachable_parent_graph_acyclic:
  assumes "reachable s"
  shows "\<forall>r\<in>set (rows s).
           reaches_root s (length (rows s)) (cell r ''account_key'') \<and>
           cell r ''parent_key'' \<noteq> cell r ''account_key''"
proof
  fix r assume "r \<in> set (rows s)"
  then obtain i where i: "i < length (rows s)" "r = rows s ! i"
    by (auto simp: in_set_conv_nth)
  from reachable_parents_first [OF assms] have pf: "parents_first (rows s)" .
  from parents_first_reaches_root [OF pf i(1)] i
  have "reaches_root s (length (rows s)) (cell r ''account_key'')"
    by (auto intro: reaches_root_mono)
  with parents_first_not_own_parent [OF pf i(1)] i(2)
  show "reaches_root s (length (rows s)) (cell r ''account_key'') \<and>
        cell r ''parent_key'' \<noteq> cell r ''account_key''" by simp
qed


text \<open>The theorem of C4 at the chain of three that three creations build from the
  empty store.\<close>

theorem reachable_parent_graph_acyclic_witness:
  "reachable store3 \<and>
   child_record ''KLMNO'' ''FGHIJ'' \<in> set (rows store3) \<and>
   reaches_root store3 (length (rows store3))
     (cell (child_record ''KLMNO'' ''FGHIJ'') ''account_key'') \<and>
   cell (child_record ''KLMNO'' ''FGHIJ'') ''parent_key''
     \<noteq> cell (child_record ''KLMNO'' ''FGHIJ'') ''account_key''"
proof -
  have "reachable store1"
    using r_create [OF r_init create_first_account] .
  then have "reachable store2"
    using create_second_account by (rule r_create)
  then have r: "reachable store3"
    using create_third_account by (rule r_create)
  have m: "child_record ''KLMNO'' ''FGHIJ'' \<in> set (rows store3)"
    by (simp add: store3_def rows_store_of)
  from reachable_parent_graph_acyclic [OF r] m r show ?thesis by blast
qed

lemma orphan_store_no_parent: "\<not> reaches_root orphan_store n (Str ''ABCDE'')"
  by (cases n) (simp_all add: orphan_store_def rows_store_of cell_child_record)

lemma orphan_store_no_root: "\<not> reaches_root orphan_store n (Str ''FGHIJ'')"
proof (cases n)
  case 0
  then show ?thesis
    by (simp add: orphan_store_def rows_store_of cell_child_record)
next
  case (Suc m)
  have "rows orphan_store = [child_record ''FGHIJ'' ''ABCDE'']"
    by (simp add: orphan_store_def rows_store_of)
  with orphan_store_no_parent [of m] Suc show ?thesis
    by (simp add: cell_child_record)
qed

lemma delete_account_store2:
  "delete_account store2 ''ABCDE'' = (True, orphan_store)"
  by (simp add: delete_account_def store2_def orphan_store_def store_of_def cell_root_record)

text \<open>
  C4 as stated, over every operation of the store, fails: create a root, create a
  child under it, delete the root. The child is still stored, and following its
  \<^verbatim>\<open>parent_key\<close> reaches no account at all, within any number of hops.
\<close>

theorem delete_account_leaves_orphan:
  "create_account init (siterate Suc 0) ''ASSET'' ''ABCDE'' ''ABCDE'' [] [] ''EUR'' False Map.empty
     = Some (Inr ''ABCDE'', store1, siterate Suc 5) \<and>
   create_account store1 (siterate Suc 5) ''BANK'' ''FGHIJ'' ''FGHIJ'' ''ABCDE'' [] ''EUR'' False
     Map.empty = Some (Inr ''FGHIJ'', store2, siterate Suc 10) \<and>
   delete_account store2 ''ABCDE'' = (True, orphan_store) \<and>
   child_record ''FGHIJ'' ''ABCDE'' \<in> set (rows orphan_store) \<and>
   \<not> reaches_root orphan_store (length (rows orphan_store))
       (cell (child_record ''FGHIJ'' ''ABCDE'') ''account_key'') \<and>
   \<not> reaches_root orphan_store 100 (Str ''FGHIJ'')"
  using orphan_store_no_root [of 100] orphan_store_no_root [of "length (rows orphan_store)"]
  by (simp add: create_first_account create_second_account delete_account_store2
      cell_child_record orphan_store_def rows_store_of del: reaches_root.simps)

end
